theory Spec2Isabelle
  imports Main "HOL-Library.Sublist"
begin

section \<open>Python strings\<close>

text \<open>
  A Python \<^verbatim>\<open>str\<close> is modelled as a \<^typ>\<open>string\<close>: one \<^typ>\<open>char\<close> per code point,
  the char with number \<open>n\<close> standing for the code point \<open>n\<close>. This model covers the texts
  whose code points lie in \<open>0..255\<close> (the parser is given once more further down, on an
  alphabet with one character beyond them); the tables below are those of CPython
  (\<^verbatim>\<open>str.isspace\<close>, \<^verbatim>\<open>str.isupper\<close>, \<^verbatim>\<open>str.lower\<close>, and the classes \<^verbatim>\<open>\s\<close>, \<^verbatim>\<open>\w\<close> of
  \<^verbatim>\<open>re\<close> on \<^verbatim>\<open>str\<close> patterns) for that range.
\<close>

definition code_point :: "char \<Rightarrow> nat" where
  "code_point c = of_char c"

definition isspace :: "char \<Rightarrow> bool" where
  "isspace c = (let n = code_point c in
     (9 \<le> n \<and> n \<le> 13) \<or> (28 \<le> n \<and> n \<le> 32) \<or> n = 133 \<or> n = 160)"

definition isupper :: "char \<Rightarrow> bool" where
  "isupper c = (let n = code_point c in
     (65 \<le> n \<and> n \<le> 90) \<or> (192 \<le> n \<and> n \<le> 214) \<or> (216 \<le> n \<and> n \<le> 222))"

text \<open>The class \<^verbatim>\<open>\w\<close>: the alphanumeric code points and the underscore.\<close>

definition isword :: "char \<Rightarrow> bool" where
  "isword c = (let n = code_point c in
     (48 \<le> n \<and> n \<le> 57) \<or> (65 \<le> n \<and> n \<le> 90) \<or> n = 95 \<or> (97 \<le> n \<and> n \<le> 122) \<or>
     n = 170 \<or> n = 178 \<or> n = 179 \<or> n = 181 \<or> n = 185 \<or> n = 186 \<or>
     (188 \<le> n \<and> n \<le> 190) \<or> (192 \<le> n \<and> n \<le> 214) \<or> (216 \<le> n \<and> n \<le> 246) \<or>
     (248 \<le> n \<and> n \<le> 255))"

definition lower_char :: "char \<Rightarrow> char" where
  "lower_char c = (if isupper c then char_of (code_point c + 32) else c)"

definition str_lower :: "string \<Rightarrow> string" where
  "str_lower s = map lower_char s"

definition str_strip :: "string \<Rightarrow> string" where
  "str_strip s = rev (dropWhile isspace (rev (dropWhile isspace s)))"

text \<open>\<^verbatim>\<open>p in s\<close> on strings: \<open>p\<close> occurs in \<open>s\<close> as a contiguous piece.\<close>

fun str_in :: "'c list \<Rightarrow> 'c list \<Rightarrow> bool" where
  "str_in p [] = (p = [])"
| "str_in p (c # s) = (take (length p) (c # s) = p \<or> str_in p s)"

section \<open>The regular expressions of the parser\<close>

text \<open>
  The patterns of the source use literals, the classes \<^verbatim>\<open>\s\<close>, \<^verbatim>\<open>\w\<close>, \<^verbatim>\<open>.\<close> and
  \<^verbatim>\<open>[^.]\<close> under \<^verbatim>\<open>+\<close>, \<^verbatim>\<open>*\<close> and the lazy \<^verbatim>\<open>+?\<close>, the anchor \<^verbatim>\<open>$\<close>, sequence and
  alternation. The matcher is the same for every type \<open>'c\<close> of characters; the anchor
  \<^verbatim>\<open>$\<close> carries the newline character, since it matches at the end of the text and before
  a newline that ends the text. \<open>rx_rests r s\<close> lists what is left of \<open>s\<close> after each way of matching \<open>r\<close>
  at its start, in the order in which the backtracking matcher of \<^verbatim>\<open>re\<close> tries them:
  a greedy repetition longest first, a lazy one shortest first, the left alternative
  before the right one.
\<close>

datatype 'c rx =
    Lit "'c list"
  | Plus "'c \<Rightarrow> bool"
  | Star "'c \<Rightarrow> bool"
  | LazyPlus "'c \<Rightarrow> bool"
  | Eos 'c
  | Seq "'c rx" "'c rx"
  | Alt "'c rx" "'c rx"

fun rx_rests :: "'c rx \<Rightarrow> 'c list \<Rightarrow> 'c list list" where
  "rx_rests (Lit l) s = (if take (length l) s = l then [drop (length l) s] else [])"
| "rx_rests (Plus c) s = [drop k s. k \<leftarrow> rev [1..<Suc (length (takeWhile c s))]]"
| "rx_rests (Star c) s = [drop k s. k \<leftarrow> rev [0..<Suc (length (takeWhile c s))]]"
| "rx_rests (LazyPlus c) s = [drop k s. k \<leftarrow> [1..<Suc (length (takeWhile c s))]]"
| "rx_rests (Eos newline) s = (if s = [] \<or> s = [newline] then [s] else [])"
| "rx_rests (Seq a b) s = [s2. s1 \<leftarrow> rx_rests a s, s2 \<leftarrow> rx_rests b s1]"
| "rx_rests (Alt a b) s = rx_rests a s @ rx_rests b s"

text \<open>
  Every pattern of the source has one capturing group, with a part before it and a part
  after it. \<open>matches_at p s\<close> lists the matches of \<open>p\<close> that start at the head of \<open>s\<close>, each as
  the text of the group and the rest of \<open>s\<close> after the match; the matcher returns the first.
\<close>

type_synonym 'c pattern = "'c rx \<times> 'c rx \<times> 'c rx"

fun matches_at :: "'c pattern \<Rightarrow> 'c list \<Rightarrow> ('c list \<times> 'c list) list" where
  "matches_at (pre, grp, post) s =
     [(take (length s1 - length s2) s1, s3).
        s1 \<leftarrow> rx_rests pre s, s2 \<leftarrow> rx_rests grp s1, s3 \<leftarrow> rx_rests post s2]"

text \<open>\<^verbatim>\<open>re.search(p, s)\<close>, read through \<^verbatim>\<open>group(1)\<close>: the leftmost start that matches.\<close>

fun re_search :: "'c pattern \<Rightarrow> 'c list \<Rightarrow> 'c list option" where
  "re_search p [] = (case matches_at p [] of [] \<Rightarrow> None | (g, _) # _ \<Rightarrow> Some g)"
| "re_search p (c # s) =
     (case matches_at p (c # s) of [] \<Rightarrow> re_search p s | (g, _) # _ \<Rightarrow> Some g)"

text \<open>
  \<^verbatim>\<open>re.findall(p, s)\<close> for a pattern with one group: the groups of the matches found from
  left to right, each search starting where the previous match ended. (The patterns of
  the source start with a literal, so none of their matches is empty.)
\<close>

function re_findall :: "'c pattern \<Rightarrow> 'c list \<Rightarrow> 'c list list" where
  "re_findall p s =
     (case matches_at p s of
        [] \<Rightarrow> (case s of [] \<Rightarrow> [] | _ # s' \<Rightarrow> re_findall p s')
      | (g, rest) # _ \<Rightarrow>
          g # (if length rest < length s then re_findall p rest
               else (case s of [] \<Rightarrow> [] | _ # s' \<Rightarrow> re_findall p s')))"
  by pat_completeness auto
termination
  by (relation "measure (\<lambda>(p, s). length s)") auto

declare re_findall.simps [simp del]

section \<open>requirements_parser.py\<close>

text \<open>
  The dictionary built by \<^verbatim>\<open>parse_requirement\<close> and read by the generator with
  \<^verbatim>\<open>.get(key, default)\<close>: a field is \<open>None\<close> when the key is absent.
\<close>

record requirement =
  feature :: "string option"
  conditions :: "string list option"
  expected :: "string option"
  original_text :: "string option"

definition action_keywords :: "string list" where
  "action_keywords = [''login'', ''register'', ''validate'', ''authenticate'', ''create'',
     ''delete'', ''update'', ''view'', ''display'', ''search'']"

text \<open>\<^verbatim>\<open>should\s+(\w+)\<close>\<close>

definition should_word_re :: "char pattern" where
  "should_word_re = (Seq (Lit ''should'') (Plus isspace), Plus isword, Lit [])"

text \<open>
  The matches of the group \<^verbatim>\<open>(\w+)\<close> of this pattern at the head of a text, nothing
  following the group.
\<close>

definition word_matches :: "string \<Rightarrow> (string \<times> string) list" where
  "word_matches s1 =
     [(take (length s1 - length s2) s1, s3).
        s2 \<leftarrow> rx_rests (Plus isword) s1, s3 \<leftarrow> rx_rests (Lit []) s2]"

text \<open>\<^verbatim>\<open>with\s+([^.]+?)(?:\s+and|\s*\.|\s*$)\<close> and the same after \<^verbatim>\<open>using\<close>\<close>

definition phrase_end :: "char rx" where
  "phrase_end = Alt (Seq (Plus isspace) (Lit ''and''))
     (Alt (Seq (Star isspace) (Lit ''.'')) (Seq (Star isspace) (Eos (CHR 0x0A))))"

definition with_re :: "char pattern" where
  "with_re = (Seq (Lit ''with'') (Plus isspace), LazyPlus (\<lambda>c. c \<noteq> CHR ''.''), phrase_end)"

definition using_re :: "char pattern" where
  "using_re = (Seq (Lit ''using'') (Plus isspace), LazyPlus (\<lambda>c. c \<noteq> CHR ''.''), phrase_end)"

text \<open>\<^verbatim>\<open>(valid\s+\w+)\<close> and \<^verbatim>\<open>(invalid\s+\w+)\<close>\<close>

definition valid_re :: "char pattern" where
  "valid_re = (Lit [], Seq (Lit ''valid'') (Seq (Plus isspace) (Plus isword)), Lit [])"

definition invalid_re :: "char pattern" where
  "invalid_re = (Lit [], Seq (Lit ''invalid'') (Seq (Plus isspace) (Plus isword)), Lit [])"

text \<open>\<^verbatim>\<open>should\s+(.+?)(?:\s*\.|\s*$)\<close>; the dot matches every character but the newline.\<close>

definition should_outcome_re :: "char pattern" where
  "should_outcome_re = (Seq (Lit ''should'') (Plus isspace), LazyPlus (\<lambda>c. c \<noteq> CHR 0x0A),
     Alt (Seq (Star isspace) (Lit ''.'')) (Seq (Star isspace) (Eos (CHR 0x0A))))"

definition extract_feature :: "string \<Rightarrow> string" where
  "extract_feature text =
     (case find (\<lambda>keyword. str_in keyword text) action_keywords of
        Some keyword \<Rightarrow> keyword
      | None \<Rightarrow>
          (case re_search should_word_re text of
             Some g \<Rightarrow> g
           | None \<Rightarrow> ''unknown_feature''))"

definition extract_conditions :: "string \<Rightarrow> string list" where
  "extract_conditions text =
     (let cs = map str_strip (re_findall with_re text)
             @ map str_strip (re_findall using_re text)
             @ re_findall valid_re text
             @ re_findall invalid_re text
      in if cs \<noteq> [] then cs else [''no specific conditions''])"

definition extract_expected_outcome :: "string \<Rightarrow> string" where
  "extract_expected_outcome text =
     (if str_in ''successful'' text then ''successful '' @ extract_feature text
      else if str_in ''failure'' text \<or> str_in ''error'' text then ''failure or error message''
      else (case re_search should_outcome_re text of
              Some g \<Rightarrow> str_strip g
            | None \<Rightarrow> ''system responds appropriately''))"

definition parse_requirement :: "string \<Rightarrow> requirement" where
  "parse_requirement requirement_text =
     (let text = str_strip (str_lower requirement_text)
      in \<lparr>feature = Some (extract_feature text),
          conditions = Some (extract_conditions text),
          expected = Some (extract_expected_outcome text),
          original_text = Some requirement_text\<rparr>)"

section \<open>requirements_parser.py on texts with a code point above 255\<close>

text \<open>
  CPython has upper-case letters without a lower-case form; \<^verbatim>\<open>str.lower\<close> returns them
  unchanged. None lies below 256. To have one in reach the parser is given a second time,
  on the alphabet of the code points \<open>0..255\<close> and U+2102 (DOUBLE-STRUCK CAPITAL C): a letter
  of category Lu, which \<^verbatim>\<open>isupper\<close> accepts, \<^verbatim>\<open>lower\<close> leaves as it is, \<^verbatim>\<open>\w\<close> matches and
  \<^verbatim>\<open>\s\<close> does not. The definitions are those of the section before, with the tables
  extended by that one character and the literals carried over by \<open>wide\<close>.
\<close>

datatype wchar = Latin1 char | DoubleStruckC

definition wide :: "string \<Rightarrow> wchar list" where
  "wide s = map Latin1 s"

fun isspace_w :: "wchar \<Rightarrow> bool" where
  "isspace_w (Latin1 c) = isspace c"
| "isspace_w DoubleStruckC = False"

fun isupper_w :: "wchar \<Rightarrow> bool" where
  "isupper_w (Latin1 c) = isupper c"
| "isupper_w DoubleStruckC = True"

fun isword_w :: "wchar \<Rightarrow> bool" where
  "isword_w (Latin1 c) = isword c"
| "isword_w DoubleStruckC = True"

fun lower_char_w :: "wchar \<Rightarrow> wchar" where
  "lower_char_w (Latin1 c) = Latin1 (lower_char c)"
| "lower_char_w DoubleStruckC = DoubleStruckC"

definition str_lower_w :: "wchar list \<Rightarrow> wchar list" where
  "str_lower_w s = map lower_char_w s"

definition str_strip_w :: "wchar list \<Rightarrow> wchar list" where
  "str_strip_w s = rev (dropWhile isspace_w (rev (dropWhile isspace_w s)))"

text \<open>The dictionary built by \<^verbatim>\<open>parse_requirement\<close>, with its four keys.\<close>

record requirement_w =
  feature_w :: "wchar list"
  conditions_w :: "wchar list list"
  expected_w :: "wchar list"
  original_text_w :: "wchar list"

definition should_word_re_w :: "wchar pattern" where
  "should_word_re_w = (Seq (Lit (wide ''should'')) (Plus isspace_w), Plus isword_w, Lit [])"

definition phrase_end_w :: "wchar rx" where
  "phrase_end_w = Alt (Seq (Plus isspace_w) (Lit (wide ''and'')))
     (Alt (Seq (Star isspace_w) (Lit (wide ''.'')))
          (Seq (Star isspace_w) (Eos (Latin1 (CHR 0x0A)))))"

definition with_re_w :: "wchar pattern" where
  "with_re_w = (Seq (Lit (wide ''with'')) (Plus isspace_w),
     LazyPlus (\<lambda>c. c \<noteq> Latin1 (CHR ''.'')), phrase_end_w)"

definition using_re_w :: "wchar pattern" where
  "using_re_w = (Seq (Lit (wide ''using'')) (Plus isspace_w),
     LazyPlus (\<lambda>c. c \<noteq> Latin1 (CHR ''.'')), phrase_end_w)"

definition valid_re_w :: "wchar pattern" where
  "valid_re_w = (Lit [], Seq (Lit (wide ''valid'')) (Seq (Plus isspace_w) (Plus isword_w)), Lit [])"

definition invalid_re_w :: "wchar pattern" where
  "invalid_re_w =
     (Lit [], Seq (Lit (wide ''invalid'')) (Seq (Plus isspace_w) (Plus isword_w)), Lit [])"

definition should_outcome_re_w :: "wchar pattern" where
  "should_outcome_re_w = (Seq (Lit (wide ''should'')) (Plus isspace_w),
     LazyPlus (\<lambda>c. c \<noteq> Latin1 (CHR 0x0A)),
     Alt (Seq (Star isspace_w) (Lit (wide ''.'')))
         (Seq (Star isspace_w) (Eos (Latin1 (CHR 0x0A)))))"

definition extract_feature_w :: "wchar list \<Rightarrow> wchar list" where
  "extract_feature_w text =
     (case find (\<lambda>keyword. str_in keyword text) (map wide action_keywords) of
        Some keyword \<Rightarrow> keyword
      | None \<Rightarrow>
          (case re_search should_word_re_w text of
             Some g \<Rightarrow> g
           | None \<Rightarrow> wide ''unknown_feature''))"

definition extract_conditions_w :: "wchar list \<Rightarrow> wchar list list" where
  "extract_conditions_w text =
     (let cs = map str_strip_w (re_findall with_re_w text)
             @ map str_strip_w (re_findall using_re_w text)
             @ re_findall valid_re_w text
             @ re_findall invalid_re_w text
      in if cs \<noteq> [] then cs else [wide ''no specific conditions''])"

definition extract_expected_outcome_w :: "wchar list \<Rightarrow> wchar list" where
  "extract_expected_outcome_w text =
     (if str_in (wide ''successful'') text then wide ''successful '' @ extract_feature_w text
      else if str_in (wide ''failure'') text \<or> str_in (wide ''error'') text
        then wide ''failure or error message''
      else (case re_search should_outcome_re_w text of
              Some g \<Rightarrow> str_strip_w g
            | None \<Rightarrow> wide ''system responds appropriately''))"

definition parse_requirement_w :: "wchar list \<Rightarrow> requirement_w" where
  "parse_requirement_w requirement_text =
     (let text = str_strip_w (str_lower_w requirement_text)
      in \<lparr>feature_w = extract_feature_w text,
          conditions_w = extract_conditions_w text,
          expected_w = extract_expected_outcome_w text,
          original_text_w = requirement_text\<rparr>)"

text \<open>
  The two parsers are compared through the embedding \<open>wide\<close>: a pattern on the wider
  alphabet agrees with one on characters when it has the same shape, the literals
  carried over, and classes that say on an embedded character what the narrow ones say
  on the character.
\<close>

fun rx_agree :: "char rx \<Rightarrow> wchar rx \<Rightarrow> bool" where
  "rx_agree (Lit l) (Lit l') = (l' = wide l)"
| "rx_agree (Plus c) (Plus c') = (\<forall>x. c' (Latin1 x) = c x)"
| "rx_agree (Star c) (Star c') = (\<forall>x. c' (Latin1 x) = c x)"
| "rx_agree (LazyPlus c) (LazyPlus c') = (\<forall>x. c' (Latin1 x) = c x)"
| "rx_agree (Eos n) (Eos n') = (n' = Latin1 n)"
| "rx_agree (Seq a b) (Seq a' b') = (rx_agree a a' \<and> rx_agree b b')"
| "rx_agree (Alt a b) (Alt a' b') = (rx_agree a a' \<and> rx_agree b b')"
| "rx_agree _ _ = False"

fun pattern_agree :: "char pattern \<Rightarrow> wchar pattern \<Rightarrow> bool" where
  "pattern_agree (pre, grp, post) (pre', grp', post') =
     (rx_agree pre pre' \<and> rx_agree grp grp' \<and> rx_agree post post')"

section \<open>test_generator.py\<close>

text \<open>Helpers of the standard library, as far as the generator uses them.\<close>

text \<open>\<^verbatim>\<open>s.replace(old, new)\<close> for one-character \<open>old\<close> and \<open>new\<close>.\<close>

definition replace_char :: "char \<Rightarrow> char \<Rightarrow> string \<Rightarrow> string" where
  "replace_char old new s = map (\<lambda>c. if c = old then new else c) s"

text \<open>\<^verbatim>\<open>s.split(sep)\<close> for a one-character separator: empty pieces are kept.\<close>

fun str_split :: "char \<Rightarrow> string \<Rightarrow> string list" where
  "str_split sep [] = [[]]"
| "str_split sep (c # s) =
     (if c = sep then [] # str_split sep s
      else (case str_split sep s of [] \<Rightarrow> [[c]] | w # ws \<Rightarrow> (c # w) # ws))"

text \<open>\<^verbatim>\<open>sep.join(pieces)\<close>\<close>

fun str_join :: "string \<Rightarrow> string list \<Rightarrow> string" where
  "str_join sep [] = []"
| "str_join sep [w] = w"
| "str_join sep (w # v # ws) = w @ sep @ str_join sep (v # ws)"

text \<open>\<^verbatim>\<open>str(n)\<close> for a natural number: its decimal digits.\<close>

function str_nat :: "nat \<Rightarrow> string" where
  "str_nat n = (if n < 10 then [char_of (48 + n)] else str_nat (n div 10) @ [char_of (48 + n mod 10)])"
  by pat_completeness auto
termination
  by (relation "measure (\<lambda>n. n)") auto

declare str_nat.simps [simp del]

text \<open>\<^verbatim>\<open>os.path.join(a, b)\<close> of \<^verbatim>\<open>posixpath\<close>.\<close>

definition os_path_join :: "string \<Rightarrow> string \<Rightarrow> string" where
  "os_path_join a b =
     (if take 1 b = ''/'' then b
      else if a = [] \<or> take 1 (rev a) = ''/'' then a @ b
      else a @ ''/'' @ b)"


text \<open>
  The world outside the program: the files, as a store from path to content, and the
  clock, as the sequence of its future readings. A reading is kept through the three
  renderings the sources take of it: \<^verbatim>\<open>strftime("%Y%m%d_%H%M%S")\<close>,
  \<^verbatim>\<open>strftime("%Y-%m-%d %H:%M:%S")\<close> and \<^verbatim>\<open>isoformat()\<close>.

  \<^verbatim>\<open>open(filepath, 'w')\<close> raises when the operating system refuses the path (a directory
  on it does not exist, a name in it is too long): \<open>cannot_open w path\<close> tells that.
  Nothing in the generator catches the exception, so an operation that writes returns
  either its value or the exception (\<open>Inl\<close>), and in both cases the world as it then is:
  the files written before an exception stay written. Writing into a file that was
  opened is taken to complete.
\<close>

record instant =
  compact :: string
  readable :: string
  isoformat :: string


datatype error = OpenError string



definition generate_test_name :: "string \<Rightarrow> string list \<Rightarrow> string" where
  "generate_test_name feat conds =
     (let clean_feature = replace_char (CHR ''-'') (CHR ''_'') (replace_char (CHR '' '') (CHR ''_'') feat);
          condition_suffix =
            (case conds of
               [] \<Rightarrow> []
             | c0 # _ \<Rightarrow>
                 if conds \<noteq> [''no specific conditions''] then
                   (let first_condition =
                          replace_char (CHR ''-'') (CHR ''_'') (replace_char (CHR '' '') (CHR ''_'') c0);
                        meaningful_words =
                          [word \<leftarrow> str_split (CHR ''_'') first_condition.
                             word \<notin> set [''and'', ''or'', ''with'', ''using'']]
                    in if meaningful_words \<noteq> [] then ''_'' @ str_join ''_'' (take 2 meaningful_words)
                       else [])
                 else [])
      in ''test_'' @ clean_feature @ condition_suffix)"







text \<open>The four reads \<^verbatim>\<open>requirement.get(key, default)\<close>.\<close>

definition get_feature :: "requirement \<Rightarrow> string" where
  "get_feature r = (case feature r of Some v \<Rightarrow> v | None \<Rightarrow> ''unknown'')"

definition get_conditions :: "requirement \<Rightarrow> string list" where
  "get_conditions r = (case conditions r of Some v \<Rightarrow> v | None \<Rightarrow> [])"

definition get_expected :: "requirement \<Rightarrow> string" where
  "get_expected r = (case expected r of Some v \<Rightarrow> v | None \<Rightarrow> ''success'')"

definition get_original_text :: "requirement \<Rightarrow> string" where
  "get_original_text r = (case original_text r of Some v \<Rightarrow> v | None \<Rightarrow> [])"








section \<open>executor.py\<close>

text \<open>\<^verbatim>\<open>str(n)\<close> for an integer.\<close>

definition str_int :: "int \<Rightarrow> string" where
  "str_int i = (if i < 0 then ''-'' @ str_nat (nat (- i)) else str_nat (nat i))"

text \<open>
  The values stored in a result dictionary. \<open>'j\<close> is the type of a parsed JSON document.
  A dictionary is the list of its items in the order of insertion; \<^const>\<open>map_of\<close> reads it.
\<close>

datatype 'j pyval = VNone | VBool bool | VInt int | VStr string | VData 'j

type_synonym 'j result = "(string \<times> 'j pyval) list"

text \<open>
  What a call into the outside can do: return, or raise. The two exceptions the handlers
  tell apart are \<^verbatim>\<open>subprocess.TimeoutExpired\<close> and every other \<^verbatim>\<open>Exception\<close>; each
  carries the text that \<^verbatim>\<open>str(e)\<close> gives.
\<close>

datatype exn = TimeoutExpired string | OtherException string

fun exn_str :: "exn \<Rightarrow> string" where
  "exn_str (TimeoutExpired m) = m"
| "exn_str (OtherException m) = m"

record completed_process =
  returncode :: int
  stdout :: string
  stderr :: string

text \<open>
  The environment of one call of a report-running operation: the readings of the clock
  (\<open>now e n\<close> is the \<open>n\<close>-th), \<^verbatim>\<open>subprocess.run\<close> as a function of the command and of the
  timeout in seconds, the answers of \<^verbatim>\<open>os.path.exists\<close> (\<open>path_exists e n\<close> answers the
  \<open>n\<close>-th query), and the reading of a JSON file (\<^verbatim>\<open>open\<close> and \<^verbatim>\<open>json.load\<close>).
\<close>

record 'j env =
  now :: "nat \<Rightarrow> instant"
  subprocess_run :: "string list \<Rightarrow> nat option \<Rightarrow> exn + completed_process"
  path_exists :: "nat \<Rightarrow> string \<Rightarrow> bool"
  json_load :: "string \<Rightarrow> exn + 'j"

record test_reporter =
  test_dir :: string
  reports_dir :: string

text \<open>
  The messages start with a pictograph, a code point above 255 (U+1F389, U+274C,
  U+26A0 U+FE0F, U+2753); each is written here as the bytes of its UTF-8 encoding, as in
  the source file.
\<close>

definition get_status_message :: "int \<Rightarrow> string" where
  "get_status_message exit_code =
     (if exit_code = 0 then [CHR 0xF0, CHR 0x9F, CHR 0x8E, CHR 0x89] @ '' All tests passed!''
      else if exit_code = 1 then [CHR 0xE2, CHR 0x9D, CHR 0x8C] @ '' Some tests failed''
      else if exit_code = 5 then
        [CHR 0xE2, CHR 0x9A, CHR 0xA0, CHR 0xEF, CHR 0xB8, CHR 0x8F] @ '' No tests collected''
      else [CHR 0xE2, CHR 0x9D, CHR 0x93] @ '' Unknown exit code: '' @ str_int exit_code)"

definition pytest_cmd :: "string \<Rightarrow> string list option \<Rightarrow> string list \<Rightarrow> string list" where
  "pytest_cmd dir test_files options =
     (case test_files of
        None \<Rightarrow> [''python'', ''-m'', ''pytest'', dir] @ options
      | Some fs \<Rightarrow> [''python'', ''-m'', ''pytest''] @ fs @ options)"

definition path_or_none :: "bool \<Rightarrow> string \<Rightarrow> 'j pyval" where
  "path_or_none present path = (if present then VStr path else VNone)"

text \<open>
  Each operation is a \<^verbatim>\<open>try\<close> block and its handlers. The body of the block, up to the
  \<^verbatim>\<open>return\<close>, is given first (\<open>Inl\<close> when it raises), then the operation with the
  dictionary it returns on each path.
\<close>

definition html_report_path :: "'j env \<Rightarrow> test_reporter \<Rightarrow> string" where
  "html_report_path e self =
     os_path_join (reports_dir self) (''test_report_'' @ compact (now e 0) @ ''.html'')"

definition html_cmd :: "'j env \<Rightarrow> test_reporter \<Rightarrow> string list option \<Rightarrow> string list" where
  "html_cmd e self test_files =
     pytest_cmd (test_dir self) test_files
       [''--html='' @ html_report_path e self, ''--self-contained-html'', ''-v'', ''--tb=short'']"

definition try_html ::
  "'j env \<Rightarrow> test_reporter \<Rightarrow> string list option \<Rightarrow> exn + completed_process" where
  "try_html e self test_files = subprocess_run e (html_cmd e self test_files) (Some 300)"

definition run_tests_with_html_report ::
  "'j env \<Rightarrow> test_reporter \<Rightarrow> string list option \<Rightarrow> 'j result" where
  "run_tests_with_html_report e self test_files =
     (case try_html e self test_files of
        Inr result \<Rightarrow>
          [(''timestamp'', VStr (isoformat (now e 1))),
           (''exit_code'', VInt (returncode result)),
           (''success'', VBool (returncode result = 0)),
           (''html_report_path'',
              path_or_none (path_exists e 0 (html_report_path e self)) (html_report_path e self)),
           (''stdout'', VStr (stdout result)),
           (''stderr'', VStr (stderr result)),
           (''report_type'', VStr ''HTML''),
           (''message'', VStr (get_status_message (returncode result)))]
      | Inl (TimeoutExpired m) \<Rightarrow>
          [(''error'', VStr ''Test execution timed out''), (''success'', VBool False)]
      | Inl (OtherException m) \<Rightarrow> [(''error'', VStr m), (''success'', VBool False)])"

definition allure_results_dir :: "'j env \<Rightarrow> test_reporter \<Rightarrow> string" where
  "allure_results_dir e self =
     os_path_join (reports_dir self) (''allure-results-'' @ compact (now e 0))"

definition allure_report_dir :: "'j env \<Rightarrow> test_reporter \<Rightarrow> string" where
  "allure_report_dir e self =
     os_path_join (reports_dir self) (''allure-report-'' @ compact (now e 0))"

definition allure_pytest_cmd :: "'j env \<Rightarrow> test_reporter \<Rightarrow> string list option \<Rightarrow> string list" where
  "allure_pytest_cmd e self test_files =
     pytest_cmd (test_dir self) test_files
       [''--alluredir='' @ allure_results_dir e self, ''--clean-alluredir'', ''-v'']"

definition allure_cmd :: "'j env \<Rightarrow> test_reporter \<Rightarrow> string list" where
  "allure_cmd e self =
     [''allure'', ''generate'', allure_results_dir e self, ''-o'', allure_report_dir e self,
      ''--clean'']"

text \<open>The second call, the generation of the report, is made without a timeout.\<close>

definition try_allure ::
  "'j env \<Rightarrow> test_reporter \<Rightarrow> string list option \<Rightarrow> exn + (completed_process \<times> completed_process)" where
  "try_allure e self test_files =
     (case subprocess_run e (allure_pytest_cmd e self test_files) (Some 300) of
        Inl x \<Rightarrow> Inl x
      | Inr result \<Rightarrow>
          (case subprocess_run e (allure_cmd e self) None of
             Inl x \<Rightarrow> Inl x
           | Inr allure_result \<Rightarrow> Inr (result, allure_result)))"

definition run_tests_with_allure_report ::
  "'j env \<Rightarrow> test_reporter \<Rightarrow> string list option \<Rightarrow> 'j result" where
  "run_tests_with_allure_report e self test_files =
     (case try_allure e self test_files of
        Inr (result, allure_result) \<Rightarrow>
          [(''timestamp'', VStr (isoformat (now e 1))),
           (''exit_code'', VInt (returncode result)),
           (''success'', VBool (returncode result = 0)),
           (''allure_results_dir'', VStr (allure_results_dir e self)),
           (''allure_report_dir'',
              path_or_none (returncode allure_result = 0) (allure_report_dir e self)),
           (''stdout'', VStr (stdout result)),
           (''stderr'', VStr (stderr result)),
           (''allure_generation_success'', VBool (returncode allure_result = 0)),
           (''report_type'', VStr ''Allure''),
           (''message'', VStr (get_status_message (returncode result)))]
      | Inl (TimeoutExpired m) \<Rightarrow>
          [(''error'', VStr ''Test execution timed out''), (''success'', VBool False)]
      | Inl (OtherException m) \<Rightarrow> [(''error'', VStr m), (''success'', VBool False)])"

definition json_report_path :: "'j env \<Rightarrow> test_reporter \<Rightarrow> string" where
  "json_report_path e self =
     os_path_join (reports_dir self) (''test_report_'' @ compact (now e 0) @ ''.json'')"

definition json_cmd :: "'j env \<Rightarrow> test_reporter \<Rightarrow> string list option \<Rightarrow> string list" where
  "json_cmd e self test_files =
     pytest_cmd (test_dir self) test_files
       [''--json-report='' @ json_report_path e self, ''--json-report-summary'', ''-v'']"

definition try_json ::
  "'j env \<Rightarrow> test_reporter \<Rightarrow> string list option \<Rightarrow> exn + (completed_process \<times> 'j pyval)" where
  "try_json e self test_files =
     (case subprocess_run e (json_cmd e self test_files) (Some 300) of
        Inl x \<Rightarrow> Inl x
      | Inr result \<Rightarrow>
          (if path_exists e 0 (json_report_path e self) then
             (case json_load e (json_report_path e self) of
                Inl x \<Rightarrow> Inl x
              | Inr json_data \<Rightarrow> Inr (result, VData json_data))
           else Inr (result, VNone)))"

text \<open>This operation has the one handler \<^verbatim>\<open>except Exception\<close>, which also takes the timeout.\<close>

definition run_tests_with_json_report ::
  "'j env \<Rightarrow> test_reporter \<Rightarrow> string list option \<Rightarrow> 'j result" where
  "run_tests_with_json_report e self test_files =
     (case try_json e self test_files of
        Inr (result, json_data) \<Rightarrow>
          [(''timestamp'', VStr (isoformat (now e 1))),
           (''exit_code'', VInt (returncode result)),
           (''success'', VBool (returncode result = 0)),
           (''json_report_path'',
              path_or_none (path_exists e 1 (json_report_path e self)) (json_report_path e self)),
           (''json_data'', json_data),
           (''stdout'', VStr (stdout result)),
           (''stderr'', VStr (stderr result)),
           (''report_type'', VStr ''JSON''),
           (''message'', VStr (get_status_message (returncode result)))]
      | Inl x \<Rightarrow> [(''error'', VStr (exn_str x)), (''success'', VBool False)])"

text \<open>Two environments and a reporter to evaluate the operations in.\<close>

definition noon :: instant where
  "noon = \<lparr>compact = ''20240101_120000'', readable = ''2024-01-01 12:00:00'',
           isoformat = ''2024-01-01T12:00:00''\<rparr>"

definition timing_out_env :: "unit env" where
  "timing_out_env =
     \<lparr>now = (\<lambda>n. noon),
      subprocess_run = (\<lambda>cmd timeout. Inl (TimeoutExpired ''timed out after 300 seconds'')),
      path_exists = (\<lambda>n path. False),
      json_load = (\<lambda>path. Inl (OtherException ''No such file''))\<rparr>"

definition failing_tests_env :: "unit env" where
  "failing_tests_env =
     \<lparr>now = (\<lambda>n. noon),
      subprocess_run =
        (\<lambda>cmd timeout. Inr \<lparr>returncode = 1, stdout = ''1 failed'', stderr = []\<rparr>),
      path_exists = (\<lambda>n path. True),
      json_load = (\<lambda>path. Inr ())\<rparr>"

definition default_reporter :: test_reporter where
  "default_reporter = \<lparr>test_dir = ''tests/generated'', reports_dir = ''reports''\<rparr>"

section \<open>The specification's descriptions\<close>

text \<open>
  Feature extraction as the specification words it: the first word of the ordered
  vocabulary that occurs in the text; failing that, the word that follows the leftmost
  \<^verbatim>\<open>should\<close> that has white space and then a word after it; failing that, the fallback
  token. \<open>word_after_should_here s\<close> reads \<^verbatim>\<open>should\<close>, the white space and the word at the
  head of \<open>s\<close>, without any backtracking.
\<close>

definition word_after_should_here :: "string \<Rightarrow> string option" where
  "word_after_should_here s =
     (if take 6 s = ''should'' then
        (let rest = drop 6 s;
             word = takeWhile isword (dropWhile isspace rest)
         in if takeWhile isspace rest \<noteq> [] \<and> word \<noteq> [] then Some word else None)
      else None)"

fun word_after_should :: "string \<Rightarrow> string option" where
  "word_after_should [] = None"
| "word_after_should (c # s) =
     (case word_after_should_here (c # s) of
        Some word \<Rightarrow> Some word
      | None \<Rightarrow> word_after_should s)"

definition feature_by_vocabulary :: "string \<Rightarrow> string" where
  "feature_by_vocabulary text =
     (case [word \<leftarrow> [''login'', ''register'', ''validate'', ''authenticate'', ''create'',
                      ''delete'', ''update'', ''view'', ''display'', ''search'']. sublist word text] of
        word # _ \<Rightarrow> word
      | [] \<Rightarrow>
          (case word_after_should text of
             Some word \<Rightarrow> word
           | None \<Rightarrow> ''unknown_feature''))"


text \<open>
  The sanitising that the specification's data model describes: every run of
  non-alphanumeric characters becomes one separator. (\<open>in_run\<close> tells that the previous
  character was already replaced.)
\<close>

definition isalnum :: "char \<Rightarrow> bool" where
  "isalnum c = (isword c \<and> c \<noteq> CHR ''_'')"

fun sanitize_runs :: "bool \<Rightarrow> string \<Rightarrow> string" where
  "sanitize_runs in_run [] = []"
| "sanitize_runs in_run (c # s) =
     (if isalnum c then c # sanitize_runs False s
      else if in_run then sanitize_runs True s
      else CHR ''_'' # sanitize_runs True s)"

text \<open>
  The two shapes of a result record: the full one, which carries the time stamp, the exit
  code, the success flag, the two output texts, the tag of the report type and the
  status message of the exit code; and the one of a failure, which carries an error text
  and the success flag \<open>False\<close>, and nothing else.
\<close>

definition full_record :: "'j env \<Rightarrow> completed_process \<Rightarrow> string \<Rightarrow> 'j result \<Rightarrow> bool" where
  "full_record e p tag r =
     (map_of r ''timestamp'' = Some (VStr (isoformat (now e 1))) \<and>
      map_of r ''exit_code'' = Some (VInt (returncode p)) \<and>
      map_of r ''success'' = Some (VBool (returncode p = 0)) \<and>
      map_of r ''stdout'' = Some (VStr (stdout p)) \<and>
      map_of r ''stderr'' = Some (VStr (stderr p)) \<and>
      map_of r ''report_type'' = Some (VStr tag) \<and>
      map_of r ''message'' = Some (VStr (get_status_message (returncode p))))"

definition failure_record :: "string \<Rightarrow> 'j result \<Rightarrow> bool" where
  "failure_record text r = (r = [(''error'', VStr text), (''success'', VBool False)])"

text \<open>
  The name of a generated test, in the words of the component design: blanks and hyphens
  become the separator, one for one; the words kept from the first condition are the
  first two pieces between separators that are not stop words, and there are none when
  the conditions are missing or are the sentinel.
\<close>

definition underscored :: "string \<Rightarrow> string" where
  "underscored s = map (\<lambda>c. if c = CHR '' '' \<or> c = CHR ''-'' then CHR ''_'' else c) s"

definition kept_words :: "string list \<Rightarrow> string list" where
  "kept_words conds =
     (if conds = [] \<or> conds = [''no specific conditions''] then []
      else take 2 [word \<leftarrow> str_split (CHR ''_'') (underscored (hd conds)).
                     word \<notin> {''and'', ''or'', ''with'', ''using''}])"


text \<open>A text without upper-case characters.\<close>

definition lower_case :: "string \<Rightarrow> bool" where
  "lower_case s = list_all (\<lambda>c. \<not> isupper c) s"

text \<open>A text that \<^verbatim>\<open>lower\<close> leaves unchanged, on the wider alphabet.\<close>

definition lower_fixed :: "wchar list \<Rightarrow> bool" where
  "lower_fixed s = (str_lower_w s = s)"

text \<open>A requirement parsed from a text of characters, carried over to the wider alphabet.\<close>

definition widen :: "requirement \<Rightarrow> requirement_w" where
  "widen r = \<lparr>feature_w = wide (get_feature r), conditions_w = map wide (get_conditions r),
              expected_w = wide (get_expected r), original_text_w = wide (get_original_text r)\<rparr>"










section \<open>Properties of the parser\<close>

subsection \<open>Characters\<close>

lemma code_point_bound: "code_point c < 256"
  by (simp add: code_point_def)

lemma lower_char_not_upper: "\<not> isupper (lower_char c)"
proof (cases "isupper c")
  case False
  then show ?thesis by (simp add: lower_char_def)
next
  case True
  then have r: "code_point c \<le> 222" "65 \<le> code_point c"
    by (auto simp: isupper_def Let_def)
  then have "code_point (char_of (code_point c + 32)) = code_point c + 32"
    by (simp add: code_point_def)
  with True r show ?thesis
    by (auto simp: lower_char_def isupper_def Let_def)
qed

lemma isspace_not_isword: "isspace c \<Longrightarrow> \<not> isword c"
  by (auto simp: isspace_def isword_def Let_def)

subsection \<open>What a match is made of\<close>

lemma rx_rests_suffix: "r \<in> set (rx_rests x s) \<Longrightarrow> suffix r s"
proof (induction x arbitrary: s r)
  case (Seq a b)
  then obtain s1 where "s1 \<in> set (rx_rests a s)" "r \<in> set (rx_rests b s1)"
    by auto
  with Seq.IH show ?case
    by (blast intro: suffix_order.trans)
qed (auto simp: suffix_drop split: if_splits)

lemma matches_at_parts:
  assumes "(g, r) \<in> set (matches_at p s)"
  shows "sublist g s" and "suffix r s"
proof -
  obtain pre grp post where p: "p = (pre, grp, post)"
    by (cases p) auto
  from assms obtain s1 s2 where
    s1: "s1 \<in> set (rx_rests pre s)" and s2: "s2 \<in> set (rx_rests grp s1)"
    and r: "r \<in> set (rx_rests post s2)" and g: "g = take (length s1 - length s2) s1"
    by (auto simp: p)
  have a: "suffix s1 s" using s1 by (rule rx_rests_suffix)
  have b: "suffix s2 s1" using s2 by (rule rx_rests_suffix)
  have c: "suffix r s2" using r by (rule rx_rests_suffix)
  have "sublist g s1" by (simp add: g)
  with a show "sublist g s"
    by (auto simp: sublist_def suffix_def) (metis append.assoc)
  from a b c show "suffix r s"
    by (meson suffix_order.trans)
qed

lemma re_search_sublist: "re_search p s = Some g \<Longrightarrow> sublist g s"
proof (induction s)
  case Nil
  then obtain r ms where "matches_at p [] = (g, r) # ms"
    by (auto split: list.splits)
  then have "(g, r) \<in> set (matches_at p [])" by simp
  then show ?case by (rule matches_at_parts(1))
next
  case (Cons c s)
  show ?case
  proof (cases "matches_at p (c # s)")
    case Nil
    with Cons show ?thesis by (simp add: sublist_Cons_right)
  next
    case (Cons m ms)
    obtain g' r where m: "m = (g', r)" by (cases m)
    with Cons Cons.prems have "g' = g" by simp
    with Cons m have "(g, r) \<in> set (matches_at p (c # s))" by simp
    then show ?thesis by (rule matches_at_parts(1))
  qed
qed

lemma re_findall_sublist: "g \<in> set (re_findall p s) \<Longrightarrow> sublist g s"
proof (induction p s rule: re_findall.induct)
  case (1 p s)
  show ?case
  proof (cases "matches_at p s")
    case Nil
    show ?thesis
    proof (cases s)
      case Nil
      with \<open>matches_at p s = []\<close> "1.prems" show ?thesis
        by (simp add: re_findall.simps)
    next
      case (Cons c s')
      with \<open>matches_at p s = []\<close> "1.prems" have "g \<in> set (re_findall p s')"
        by (simp add: re_findall.simps [of p "c # s'"])
      with "1.IH"(1) [OF \<open>matches_at p s = []\<close> Cons] have "sublist g s'" by simp
      with Cons show ?thesis by (simp add: sublist_Cons_right)
    qed
  next
    case (Cons m ms)
    obtain g' r where m: "m = (g', r)" by (cases m)
    have mem: "(g', r) \<in> set (matches_at p s)" using Cons m by simp
    have g': "sublist g' s" and r: "suffix r s"
      using matches_at_parts [OF mem] by auto
    from "1.prems" Cons m have
      "g = g' \<or> (length r < length s \<and> g \<in> set (re_findall p r))
        \<or> (\<not> length r < length s \<and> (\<exists>c s'. s = c # s' \<and> g \<in> set (re_findall p s')))"
      by (subst (asm) re_findall.simps) (auto split: list.splits if_splits)
    then consider (a) "g = g'" | (b) "length r < length s" "g \<in> set (re_findall p r)"
      | (c) c s' where "\<not> length r < length s" "s = c # s'" "g \<in> set (re_findall p s')"
      by blast
    then show ?thesis
    proof cases
      case a
      with g' show ?thesis by simp
    next
      case b
      have "sublist g r"
        using "1.IH"(2) [OF Cons m [symmetric] b(1)] b(2) by simp
      with r show ?thesis
        by (auto simp: sublist_def suffix_def) (metis append.assoc)
    next
      case c
      have "sublist g s'"
        using "1.IH"(3) [OF Cons m [symmetric] c(1) c(2)] c(3) by simp
      with c(2) show ?thesis by (simp add: sublist_Cons_right)
    qed
  qed
qed

subsection \<open>Feature extraction\<close>

lemma prefix_take_iff: "prefix p xs \<longleftrightarrow> take (length p) xs = p"
proof
  assume "prefix p xs"
  then obtain zs where "xs = p @ zs" by (auto simp: prefix_def)
  then show "take (length p) xs = p" by simp
next
  assume "take (length p) xs = p"
  with take_is_prefix [of "length p" xs] show "prefix p xs" by simp
qed

lemma str_in_sublist: "str_in p s = sublist p s"
proof (induction s)
  case Nil
  then show ?case by simp
next
  case (Cons c s)
  then show ?case
    by (simp only: str_in.simps sublist_Cons_right prefix_take_iff)
qed

lemma find_filter: "find P xs = (case filter P xs of [] \<Rightarrow> None | x # _ \<Rightarrow> Some x)"
  by (induction xs) auto

lemma concat_map_empty: "(\<And>x. x \<in> set xs \<Longrightarrow> f x = []) \<Longrightarrow> concat (map f xs) = []"
  by (induction xs) auto

lemma rev_upt_from_1: "0 < n \<Longrightarrow> rev [1..<Suc n] = n # rev [1..<n]"
  by simp

lemma takeWhile_drop_inside:
  assumes "k < length (takeWhile P xs)" and "\<And>c. P c \<Longrightarrow> \<not> Q c"
  shows "takeWhile Q (drop k xs) = []"
proof -
  from assms(1) have k: "k < length xs"
    using length_takeWhile_le [of P xs] by simp
  from assms(1) have "takeWhile P xs ! k \<in> set (takeWhile P xs)"
    by (rule nth_mem)
  then have "P (takeWhile P xs ! k)"
    by (rule set_takeWhileD [THEN conjunct2])
  with assms(1) have "P (xs ! k)"
    by (simp add: takeWhile_nth)
  then have "\<not> Q (xs ! k)" by (rule assms(2))
  moreover from k have "drop k xs = xs ! k # drop (Suc k) xs"
    by (rule Cons_nth_drop_Suc [symmetric])
  ultimately show ?thesis by simp
qed

lemma word_matches_none: "takeWhile isword s1 = [] \<Longrightarrow> word_matches s1 = []"
  by (simp add: word_matches_def)

lemma plus_rests_first:
  assumes "0 < length (takeWhile c s)"
  shows "rx_rests (Plus c) s =
    drop (length (takeWhile c s)) s # map (\<lambda>k. drop k s) (rev [1..<length (takeWhile c s)])"
proof -
  have "rx_rests (Plus c) s = map (\<lambda>k. drop k s) (rev [1..<Suc (length (takeWhile c s))])"
    by (simp only: rx_rests.simps concat_map_singleton)
  also have "rev [1..<Suc (length (takeWhile c s))]
      = length (takeWhile c s) # rev [1..<length (takeWhile c s)]"
    using assms by (rule rev_upt_from_1)
  finally show ?thesis by (simp only: list.map)
qed

lemma word_matches_first:
  assumes "takeWhile isword s1 \<noteq> []"
  shows "\<exists>ms. word_matches s1 = (takeWhile isword s1, dropWhile isword s1) # ms"
proof -
  let ?m = "length (takeWhile isword s1)"
  have m: "0 < ?m" using assms by (cases "takeWhile isword s1") simp_all
  have le: "?m \<le> length s1" by (rule length_takeWhile_le)
  have "length s1 - length (drop ?m s1) = ?m"
    using le by simp
  then have t: "take (length s1 - length (drop ?m s1)) s1 = takeWhile isword s1"
    by (simp only: takeWhile_eq_take [symmetric])
  have d: "drop ?m s1 = dropWhile isword s1"
    by (rule dropWhile_eq_drop [symmetric])
  from t d have t': "take (length s1 - length (dropWhile isword s1)) s1 = takeWhile isword s1"
    by simp
  have l: "rx_rests (Lit []) s2 = [s2]" for s2
    by simp
  show ?thesis
    unfolding word_matches_def plus_rests_first [OF m] l
    by (simp only: list.map concat.simps append_Cons append_Nil d t') blast
qed

lemma lit_should: "rx_rests (Lit ''should'') s = (if take 6 s = ''should'' then [drop 6 s] else [])"
proof -
  have l: "length ''should'' = 6" by simp
  show ?thesis by (simp only: rx_rests.simps l)
qed

lemma seq_rests: "rx_rests (Seq a b) s = concat (map (rx_rests b) (rx_rests a s))"
  by simp

lemma should_prefix_rests:
  "rx_rests (Seq (Lit ''should'') (Plus isspace)) s =
     (if take 6 s = ''should''
      then map (\<lambda>k. drop k (drop 6 s)) (rev [1..<Suc (length (takeWhile isspace (drop 6 s)))])
      else [])"
proof (cases "take 6 s = ''should''")
  case True
  have "rx_rests (Plus isspace) (drop 6 s)
      = map (\<lambda>k. drop k (drop 6 s)) (rev [1..<Suc (length (takeWhile isspace (drop 6 s)))])"
    by (simp only: rx_rests.simps concat_map_singleton)
  with True show ?thesis
    by (simp only: seq_rests lit_should refl if_True list.map concat.simps append_Nil2)
next
  case False
  then show ?thesis
    by (simp only: seq_rests lit_should if_False list.map concat.simps)
qed

lemma matches_at_should_word:
  "matches_at should_word_re s =
     (if take 6 s = ''should'' \<and> takeWhile isspace (drop 6 s) \<noteq> []
      then word_matches (dropWhile isspace (drop 6 s)) else [])"
proof -
  let ?r = "drop 6 s"
  let ?n = "length (takeWhile isspace ?r)"
  have parts: "matches_at should_word_re s =
      concat (map (\<lambda>s1. word_matches s1) (rx_rests (Seq (Lit ''should'') (Plus isspace)) s))"
    unfolding should_word_re_def matches_at.simps word_matches_def by (rule refl)
  show ?thesis
  proof (cases "take 6 s = ''should''")
    case False
    then show ?thesis
      by (simp only: parts should_prefix_rests if_False list.map concat.simps simp_thms)
  next
    case True
    then have all: "matches_at should_word_re s =
        concat (map (\<lambda>k. word_matches (drop k ?r)) (rev [1..<Suc ?n]))"
      by (simp only: parts should_prefix_rests refl if_True map_map comp_def)
    show ?thesis
    proof (cases "?n = 0")
      case True
      then have "takeWhile isspace ?r = []" by simp
      moreover from True all have "matches_at should_word_re s = []" by simp
      ultimately show ?thesis by simp
    next
      case False
      then have n: "0 < ?n" by simp
      have inside: "word_matches (drop k ?r) = []" if "k \<in> set (rev [1..<?n])" for k
      proof -
        from that have "k < ?n" by simp
        then have "takeWhile isword (drop k ?r) = []"
          by (rule takeWhile_drop_inside) (rule isspace_not_isword)
        then show ?thesis by (rule word_matches_none)
      qed
      have rest: "concat (map (\<lambda>k. word_matches (drop k ?r)) (rev [1..<?n])) = []"
        using inside by (rule concat_map_empty)
      have "rev [1..<Suc ?n] = ?n # rev [1..<?n]"
        using n by (rule rev_upt_from_1)
      with all rest have "matches_at should_word_re s = word_matches (drop ?n ?r)"
        by (simp only: list.map concat.simps append_Nil2)
      moreover have "drop ?n ?r = dropWhile isspace ?r"
        by (rule dropWhile_eq_drop [symmetric])
      moreover have "takeWhile isspace ?r \<noteq> []"
        using n by auto
      ultimately show ?thesis using \<open>take 6 s = ''should''\<close> by simp
    qed
  qed
qed

lemma first_match_should_word:
  "(case matches_at should_word_re s of [] \<Rightarrow> None | (g, _) # _ \<Rightarrow> Some g) = word_after_should_here s"
proof (cases "take 6 s = ''should'' \<and> takeWhile isspace (drop 6 s) \<noteq> []")
  case False
  then show ?thesis
    by (auto simp: matches_at_should_word word_after_should_here_def Let_def)
next
  case True
  let ?d = "dropWhile isspace (drop 6 s)"
  show ?thesis
  proof (cases "takeWhile isword ?d = []")
    case e: True
    then have "word_matches ?d = []" by (rule word_matches_none)
    with True e show ?thesis
      by (simp add: matches_at_should_word word_after_should_here_def Let_def)
  next
    case ne: False
    then obtain ms where "word_matches ?d = (takeWhile isword ?d, dropWhile isword ?d) # ms"
      using word_matches_first by blast
    with True ne show ?thesis
      by (simp add: matches_at_should_word word_after_should_here_def Let_def)
  qed
qed

lemma re_search_should_word: "re_search should_word_re s = word_after_should s"
proof (induction s)
  case Nil
  have "word_after_should_here [] = None"
    by (simp add: word_after_should_here_def)
  with first_match_should_word [of "[]"] show ?case
    by simp
next
  case (Cons c s)
  show ?case
  proof (cases "matches_at should_word_re (c # s)")
    case Nil
    with first_match_should_word [of "c # s"] have "word_after_should_here (c # s) = None"
      by simp
    with Nil Cons show ?thesis by simp
  next
    case (Cons m ms)
    obtain g r where "m = (g, r)" by (cases m)
    with Cons first_match_should_word [of "c # s"] have "word_after_should_here (c # s) = Some g"
      by simp
    with Cons \<open>m = (g, r)\<close> show ?thesis by simp
  qed
qed

lemma first_of_list:
  "(case (case xs of [] \<Rightarrow> None | x # _ \<Rightarrow> Some x) of None \<Rightarrow> d | Some k \<Rightarrow> k)
     = (case xs of [] \<Rightarrow> d | x # _ \<Rightarrow> x)"
  by (cases xs) simp_all

lemma extract_feature_by_vocabulary: "extract_feature text = feature_by_vocabulary text"
proof -
  have f: "(\<lambda>keyword. str_in keyword text) = (\<lambda>word. sublist word text)"
    by (simp add: str_in_sublist)
  show ?thesis
    unfolding extract_feature_def feature_by_vocabulary_def action_keywords_def find_filter f
      re_search_should_word first_of_list
    by (rule refl)
qed

text \<open>
  C4. The feature that the parser returns is the first word of the ordered vocabulary
  (login, register, validate, authenticate, create, delete, update, view, display,
  search) that occurs in the lower-cased, trimmed text, whatever its place in the text;
  when no word of the vocabulary occurs, it is the word after the leftmost \<^verbatim>\<open>should\<close>
  that is followed by white space and a word; otherwise it is \<^verbatim>\<open>unknown_feature\<close>.
  The backtracking of the matcher never yields another word than the direct reading.
\<close>

theorem feature_follows_vocabulary:
  "feature (parse_requirement t) = Some (feature_by_vocabulary (str_strip (str_lower t)))"
  by (simp add: parse_requirement_def Let_def extract_feature_by_vocabulary)

subsection \<open>Lower-case fields\<close>

lemma lower_case_set: "lower_case s \<longleftrightarrow> (\<forall>c \<in> set s. \<not> isupper c)"
  by (simp add: lower_case_def list_all_iff)

lemma lower_case_fixed: "lower_case s \<Longrightarrow> str_lower s = s"
  by (induction s) (simp_all add: lower_case_def str_lower_def lower_char_def)

lemma lower_case_str_lower: "lower_case (str_lower t)"
  by (simp add: lower_case_set str_lower_def lower_char_not_upper)

lemma lower_case_sublist: "sublist g s \<Longrightarrow> lower_case s \<Longrightarrow> lower_case g"
  using set_mono_sublist [of g s] by (auto simp: lower_case_set)

lemma lower_case_strip: "lower_case s \<Longrightarrow> lower_case (str_strip s)"
proof -
  have "set (str_strip s) \<subseteq> set s"
    by (auto simp: str_strip_def dest!: set_dropWhileD)
  then show "lower_case s \<Longrightarrow> lower_case (str_strip s)"
    by (auto simp: lower_case_set)
qed

lemma lower_case_keywords: "k \<in> set action_keywords \<Longrightarrow> lower_case k"
  by (auto simp: action_keywords_def lower_case_def isupper_def code_point_def)

lemma find_in_set: "find P xs = Some x \<Longrightarrow> x \<in> set xs"
  by (induction xs) (auto split: if_splits)

lemma lower_case_feature: "lower_case text \<Longrightarrow> lower_case (extract_feature text)"
proof -
  assume lc: "lower_case text"
  have "lower_case ''unknown_feature''"
    by (simp add: lower_case_def isupper_def code_point_def)
  with lc show ?thesis
    unfolding extract_feature_def
    by (auto split: option.splits
        dest: find_in_set lower_case_keywords re_search_sublist lower_case_sublist)
qed

lemma lower_case_conditions:
  assumes "lower_case text" and "cond \<in> set (extract_conditions text)"
  shows "lower_case cond"
proof -
  have found: "lower_case g" if "g \<in> set (re_findall p text)" for g p
    using that assms(1) by (blast intro: lower_case_sublist re_findall_sublist)
  have sentinel: "lower_case ''no specific conditions''"
    by (simp add: lower_case_def isupper_def code_point_def)
  from assms(2) consider "cond = ''no specific conditions''"
    | g where "g \<in> set (re_findall with_re text)" "cond = str_strip g"
    | g where "g \<in> set (re_findall using_re text)" "cond = str_strip g"
    | "cond \<in> set (re_findall valid_re text)"
    | "cond \<in> set (re_findall invalid_re text)"
    unfolding extract_conditions_def Let_def by (auto split: if_splits)
  then show ?thesis
  proof cases
    case 1
    with sentinel show ?thesis by simp
  next
    case (2 g)
    from 2(1) have "lower_case g" by (rule found)
    with 2(2) show ?thesis by (simp add: lower_case_strip)
  next
    case (3 g)
    from 3(1) have "lower_case g" by (rule found)
    with 3(2) show ?thesis by (simp add: lower_case_strip)
  next
    case 4
    then show ?thesis by (rule found)
  next
    case 5
    then show ?thesis by (rule found)
  qed
qed

lemma lower_case_expected: "lower_case text \<Longrightarrow> lower_case (extract_expected_outcome text)"
proof -
  assume lc: "lower_case text"
  have a: "lower_case ''successful ''" and b: "lower_case ''failure or error message''"
    and c: "lower_case ''system responds appropriately''"
    by (simp_all add: lower_case_def isupper_def code_point_def)
  have app: "lower_case (x @ y)" if "lower_case x" "lower_case y" for x y
    using that by (simp add: lower_case_def)
  have d: "lower_case (''successful '' @ extract_feature text)"
    using a lower_case_feature [OF lc] by (rule app)
  have e: "lower_case (str_strip g)" if "re_search should_outcome_re text = Some g" for g
    using that lc by (blast intro: lower_case_strip lower_case_sublist re_search_sublist)
  show ?thesis
    unfolding extract_expected_outcome_def using b c d e
    by (simp only: split: if_split option.split) blast
qed

text \<open>
  On texts whose code points lie in \<open>0..255\<close> the feature, the expected outcome and every
  condition of the parsed requirement contain no upper-case character at all.
\<close>

lemma narrow_fields_lower_case:
  "lower_case (get_feature (parse_requirement t)) \<and>
   lower_case (get_expected (parse_requirement t)) \<and>
   list_all lower_case (get_conditions (parse_requirement t)) \<and>
   str_lower (get_feature (parse_requirement t)) = get_feature (parse_requirement t) \<and>
   str_lower (get_expected (parse_requirement t)) = get_expected (parse_requirement t) \<and>
   map str_lower (get_conditions (parse_requirement t)) = get_conditions (parse_requirement t)"
proof -
  let ?text = "str_strip (str_lower t)"
  have lc: "lower_case ?text"
    using lower_case_str_lower by (rule lower_case_strip)
  have f: "get_feature (parse_requirement t) = extract_feature ?text"
    and e: "get_expected (parse_requirement t) = extract_expected_outcome ?text"
    and c: "get_conditions (parse_requirement t) = extract_conditions ?text"
    by (simp_all add: parse_requirement_def get_feature_def get_expected_def
        get_conditions_def Let_def)
  have lf: "lower_case (extract_feature ?text)"
    using lc by (rule lower_case_feature)
  have le: "lower_case (extract_expected_outcome ?text)"
    using lc by (rule lower_case_expected)
  have lcs: "list_all lower_case (extract_conditions ?text)"
    using lower_case_conditions [OF lc] by (simp add: list_all_iff)
  then have "map str_lower (extract_conditions ?text) = extract_conditions ?text"
    by (simp add: list_all_iff map_idI lower_case_fixed)
  with lf le lcs show ?thesis
    by (simp only: f e c lower_case_fixed simp_thms)
qed

subsection \<open>The same on the wider alphabet\<close>

lemma lower_fixed_set: "lower_fixed s \<longleftrightarrow> (\<forall>c \<in> set s. lower_char_w c = c)"
  by (simp add: lower_fixed_def str_lower_w_def map_idI map_eq_conv [of lower_char_w s id, simplified])

lemma lower_char_w_twice: "lower_char_w (lower_char_w c) = lower_char_w c"
proof (cases c)
  case (Latin1 x)
  have "lower_char (lower_char x) = lower_char x"
    using lower_char_not_upper [of x] by (simp add: lower_char_def [of "lower_char x"])
  with Latin1 show ?thesis by simp
next
  case DoubleStruckC
  then show ?thesis by simp
qed

lemma lower_fixed_str_lower: "lower_fixed (str_lower_w t)"
  by (simp add: lower_fixed_set str_lower_w_def lower_char_w_twice)

lemma lower_fixed_sublist: "sublist g s \<Longrightarrow> lower_fixed s \<Longrightarrow> lower_fixed g"
  using set_mono_sublist [of g s] by (auto simp: lower_fixed_set)

lemma lower_fixed_strip: "lower_fixed s \<Longrightarrow> lower_fixed (str_strip_w s)"
proof -
  have "set (str_strip_w s) \<subseteq> set s"
    by (auto simp: str_strip_w_def dest!: set_dropWhileD)
  then show "lower_fixed s \<Longrightarrow> lower_fixed (str_strip_w s)"
    by (auto simp: lower_fixed_set)
qed

lemma lower_fixed_append: "lower_fixed x \<Longrightarrow> lower_fixed y \<Longrightarrow> lower_fixed (x @ y)"
  by (auto simp: lower_fixed_set)

lemma lower_fixed_wide: "lower_case s \<Longrightarrow> lower_fixed (wide s)"
  by (auto simp: lower_fixed_set lower_case_set wide_def lower_char_def)

lemma lower_fixed_keywords: "k \<in> set (map wide action_keywords) \<Longrightarrow> lower_fixed k"
  by (auto intro: lower_fixed_wide lower_case_keywords)

lemma lower_fixed_feature: "lower_fixed text \<Longrightarrow> lower_fixed (extract_feature_w text)"
proof -
  assume lf: "lower_fixed text"
  have "lower_case ''unknown_feature''"
    by (simp add: lower_case_def isupper_def code_point_def)
  then have "lower_fixed (wide ''unknown_feature'')"
    by (rule lower_fixed_wide)
  with lf show ?thesis
    unfolding extract_feature_w_def
    by (auto split: option.splits
        dest: find_in_set lower_fixed_keywords re_search_sublist lower_fixed_sublist)
qed

lemma lower_fixed_conditions:
  assumes "lower_fixed text" and "cond \<in> set (extract_conditions_w text)"
  shows "lower_fixed cond"
proof -
  have found: "lower_fixed g" if "g \<in> set (re_findall p text)" for g p
    using that assms(1) by (blast intro: lower_fixed_sublist re_findall_sublist)
  have "lower_case ''no specific conditions''"
    by (simp add: lower_case_def isupper_def code_point_def)
  then have sentinel: "lower_fixed (wide ''no specific conditions'')"
    by (rule lower_fixed_wide)
  from assms(2) consider "cond = wide ''no specific conditions''"
    | g where "g \<in> set (re_findall with_re_w text)" "cond = str_strip_w g"
    | g where "g \<in> set (re_findall using_re_w text)" "cond = str_strip_w g"
    | "cond \<in> set (re_findall valid_re_w text)"
    | "cond \<in> set (re_findall invalid_re_w text)"
    unfolding extract_conditions_w_def Let_def by (auto split: if_splits)
  then show ?thesis
  proof cases
    case 1
    with sentinel show ?thesis by simp
  next
    case (2 g)
    from 2(1) have "lower_fixed g" by (rule found)
    with 2(2) show ?thesis by (simp add: lower_fixed_strip)
  next
    case (3 g)
    from 3(1) have "lower_fixed g" by (rule found)
    with 3(2) show ?thesis by (simp add: lower_fixed_strip)
  next
    case 4
    then show ?thesis by (rule found)
  next
    case 5
    then show ?thesis by (rule found)
  qed
qed

lemma lower_fixed_expected: "lower_fixed text \<Longrightarrow> lower_fixed (extract_expected_outcome_w text)"
proof -
  assume lf: "lower_fixed text"
  have "lower_case ''successful ''" and "lower_case ''failure or error message''"
    and "lower_case ''system responds appropriately''"
    by (simp_all add: lower_case_def isupper_def code_point_def)
  then have a: "lower_fixed (wide ''successful '')"
    and b: "lower_fixed (wide ''failure or error message'')"
    and c: "lower_fixed (wide ''system responds appropriately'')"
    by (simp_all add: lower_fixed_wide)
  have d: "lower_fixed (wide ''successful '' @ extract_feature_w text)"
    using a lower_fixed_feature [OF lf] by (rule lower_fixed_append)
  have e: "lower_fixed (str_strip_w g)" if "re_search should_outcome_re_w text = Some g" for g
    using that lf by (blast intro: lower_fixed_strip lower_fixed_sublist re_search_sublist)
  show ?thesis
    unfolding extract_expected_outcome_w_def using b c d e
    by (simp only: split: if_split option.split) blast
qed

lemma wide_fields_lower_fixed:
  "lower_fixed (feature_w (parse_requirement_w t)) \<and>
   lower_fixed (expected_w (parse_requirement_w t)) \<and>
   list_all lower_fixed (conditions_w (parse_requirement_w t))"
proof -
  let ?text = "str_strip_w (str_lower_w t)"
  have lf: "lower_fixed ?text"
    using lower_fixed_str_lower by (rule lower_fixed_strip)
  have "lower_fixed (extract_feature_w ?text)"
    using lf by (rule lower_fixed_feature)
  moreover have "lower_fixed (extract_expected_outcome_w ?text)"
    using lf by (rule lower_fixed_expected)
  moreover have "list_all lower_fixed (extract_conditions_w ?text)"
    using lower_fixed_conditions [OF lf] by (simp add: list_all_iff)
  ultimately show ?thesis
    by (simp add: parse_requirement_w_def Let_def)
qed

subsection \<open>The parser on the wider alphabet extends the parser on characters\<close>

lemma wide_inj: "wide a = wide b \<longleftrightarrow> a = b"
  by (simp add: wide_def inj_map_eq_map inj_on_def)

lemma wide_simps:
  "wide [] = []" "wide (x # xs) = Latin1 x # wide xs" "wide (a @ b) = wide a @ wide b"
  "length (wide s) = length s" "take n (wide s) = wide (take n s)"
  "drop n (wide s) = wide (drop n s)" "rev (wide s) = wide (rev s)"
  by (simp_all add: wide_def take_map drop_map rev_map)

lemma takeWhile_wide:
  assumes "\<And>x. c' (Latin1 x) = c x"
  shows "takeWhile c' (wide s) = wide (takeWhile c s)"
    and "dropWhile c' (wide s) = wide (dropWhile c s)"
  using assms by (simp_all add: wide_def takeWhile_map dropWhile_map comp_def)

lemma rx_rests_wide: "rx_agree r r' \<Longrightarrow> rx_rests r' (wide s) = map wide (rx_rests r s)"
proof (induction r r' arbitrary: s rule: rx_agree.induct)
  case (1 l l')
  then show ?case by (simp add: wide_simps wide_inj)
next
  case (2 c c')
  then have "takeWhile c' (wide s) = wide (takeWhile c s)"
    by (simp add: takeWhile_wide)
  then show ?case by (simp add: wide_simps comp_def map_concat)
next
  case (3 c c')
  then have "takeWhile c' (wide s) = wide (takeWhile c s)"
    by (simp add: takeWhile_wide)
  then show ?case by (simp add: wide_simps comp_def map_concat del: upt_Suc)
next
  case (4 c c')
  then have "takeWhile c' (wide s) = wide (takeWhile c s)"
    by (simp add: takeWhile_wide)
  then show ?case by (simp add: wide_simps comp_def map_concat)
next
  case (5 n n')
  have "wide s = [Latin1 n] \<longleftrightarrow> s = [n]"
    using wide_inj [of s "[n]"] by (simp add: wide_simps)
  moreover have "wide s = [] \<longleftrightarrow> s = []"
    by (simp add: wide_def)
  ultimately show ?case using 5 by simp
next
  case (6 a b a' b')
  then have a: "rx_rests a' (wide s) = map wide (rx_rests a s)"
    and b: "\<And>s1. rx_rests b' (wide s1) = map wide (rx_rests b s1)"
    by simp_all
  show ?case
    by (simp add: a b map_concat comp_def)
next
  case (7 a b a' b')
  then show ?case by simp
qed simp_all

lemma matches_at_wide:
  assumes "pattern_agree p p'"
  shows "matches_at p' (wide s) = map (\<lambda>(g, r). (wide g, wide r)) (matches_at p s)"
proof -
  obtain pre grp post where p: "p = (pre, grp, post)" by (cases p)
  obtain pre' grp' post' where p': "p' = (pre', grp', post')" by (cases p')
  from assms have a: "\<And>s. rx_rests pre' (wide s) = map wide (rx_rests pre s)"
    and b: "\<And>s. rx_rests grp' (wide s) = map wide (rx_rests grp s)"
    and c: "\<And>s. rx_rests post' (wide s) = map wide (rx_rests post s)"
    by (simp_all add: p p' rx_rests_wide)
  show ?thesis
    unfolding p p' matches_at.simps
    by (simp add: a b c map_concat comp_def wide_simps)
qed

lemma re_search_wide:
  assumes "pattern_agree p p'"
  shows "re_search p' (wide s) = map_option wide (re_search p s)"
proof (induction s)
  case Nil
  show ?case
    using matches_at_wide [OF assms, of "[]"]
    by (simp add: wide_simps split: list.splits)
next
  case (Cons c s)
  show ?case
    using matches_at_wide [OF assms, of "c # s"] Cons
    by (simp add: wide_simps split: list.splits)
qed

lemma re_findall_wide:
  assumes "pattern_agree p p'"
  shows "re_findall p' (wide s) = map wide (re_findall p s)"
  using assms
proof (induction p s rule: re_findall.induct)
  case (1 p s)
  note m = matches_at_wide [OF "1.prems", of s]
  show ?case
  proof (cases "matches_at p s")
    case Nil
    show ?thesis
    proof (cases s)
      case Nil
      with \<open>matches_at p s = []\<close> m show ?thesis
        by (simp add: re_findall.simps [of _ "[]"] wide_simps)
    next
      case (Cons c s')
      from "1.IH"(1) [OF \<open>matches_at p s = []\<close> Cons "1.prems"]
      have "re_findall p' (wide s') = map wide (re_findall p s')" .
      with \<open>matches_at p s = []\<close> m Cons show ?thesis
        by (simp add: re_findall.simps [of p' "Latin1 c # wide s'"]
            re_findall.simps [of p "c # s'"] wide_simps)
    qed
  next
    case (Cons x xs)
    obtain g r where x: "x = (g, r)" by (cases x)
    from m Cons x have m': "matches_at p' (wide s) = (wide g, wide r) # map (\<lambda>(g, r). (wide g, wide r)) xs"
      by simp
    show ?thesis
    proof (cases "length r < length s")
      case True
      from "1.IH"(2) [OF Cons x [symmetric] True "1.prems"]
      have "re_findall p' (wide r) = map wide (re_findall p r)" .
      with Cons x m' True show ?thesis
        by (simp add: re_findall.simps [of p' "wide s"] re_findall.simps [of p s] wide_simps)
    next
      case False
      show ?thesis
      proof (cases s)
        case Nil
        with Cons x m' False show ?thesis
          by (simp add: re_findall.simps [of p' "[]"] re_findall.simps [of p "[]"] wide_simps)
      next
        case (Cons c s')
        from "1.IH"(3) [OF \<open>matches_at p s = x # xs\<close> x [symmetric] False Cons "1.prems"]
        have "re_findall p' (wide s') = map wide (re_findall p s')" .
        with \<open>matches_at p s = x # xs\<close> x m' False Cons show ?thesis
          by (simp add: re_findall.simps [of p' "Latin1 c # wide s'"]
              re_findall.simps [of p "c # s'"] wide_simps)
      qed
    qed
  qed
qed

lemma str_in_wide: "str_in (wide p) (wide s) = str_in p s"
proof (induction s)
  case Nil
  then show ?case by (simp add: wide_def)
next
  case (Cons c s)
  have "take (length (wide p)) (wide (c # s)) = wide (take (length p) (c # s))"
    by (simp only: wide_simps(4,5))
  then have "take (length (wide p)) (wide (c # s)) = wide p \<longleftrightarrow> take (length p) (c # s) = p"
    by (simp only: wide_inj)
  with Cons show ?case
    by (simp add: wide_simps)
qed

lemma str_strip_wide: "str_strip_w (wide s) = wide (str_strip s)"
proof -
  have dw: "dropWhile isspace_w (wide x) = wide (dropWhile isspace x)" for x
    by (rule takeWhile_wide(2)) simp
  show ?thesis
    by (simp only: str_strip_w_def str_strip_def dw wide_simps(7))
qed

lemma str_lower_wide: "str_lower_w (wide s) = wide (str_lower s)"
  by (simp add: str_lower_w_def str_lower_def wide_def)

lemma patterns_agree:
  "pattern_agree should_word_re should_word_re_w"
  "pattern_agree with_re with_re_w"
  "pattern_agree using_re using_re_w"
  "pattern_agree valid_re valid_re_w"
  "pattern_agree invalid_re invalid_re_w"
  "pattern_agree should_outcome_re should_outcome_re_w"
  by (simp_all add: should_word_re_def should_word_re_w_def with_re_def with_re_w_def
      using_re_def using_re_w_def valid_re_def valid_re_w_def invalid_re_def invalid_re_w_def
      should_outcome_re_def should_outcome_re_w_def phrase_end_def phrase_end_w_def wide_def)

lemma find_keyword_wide:
  "find (\<lambda>keyword. str_in keyword (wide text)) (map wide ks)
     = map_option wide (find (\<lambda>keyword. str_in keyword text) ks)"
  by (induction ks) (simp_all add: str_in_wide)

lemma extract_feature_wide: "extract_feature_w (wide text) = wide (extract_feature text)"
  by (simp add: extract_feature_w_def extract_feature_def find_keyword_wide
      re_search_wide [OF patterns_agree(1)] split: option.split)

lemma extract_conditions_wide:
  "extract_conditions_w (wide text) = map wide (extract_conditions text)"
  by (simp add: extract_conditions_w_def extract_conditions_def Let_def
      re_findall_wide [OF patterns_agree(2)] re_findall_wide [OF patterns_agree(3)]
      re_findall_wide [OF patterns_agree(4)] re_findall_wide [OF patterns_agree(5)]
      str_strip_wide comp_def)

lemma extract_expected_outcome_wide:
  "extract_expected_outcome_w (wide text) = wide (extract_expected_outcome text)"
  by (simp add: extract_expected_outcome_w_def extract_expected_outcome_def str_in_wide
      extract_feature_wide re_search_wide [OF patterns_agree(6)] str_strip_wide
      wide_simps(3) [symmetric] del: append.simps split: option.split)

lemma parse_requirement_wide: "parse_requirement_w (wide t) = widen (parse_requirement t)"
  by (simp add: parse_requirement_w_def parse_requirement_def widen_def Let_def
      str_lower_wide str_strip_wide extract_feature_wide extract_conditions_wide
      extract_expected_outcome_wide get_feature_def get_conditions_def get_expected_def
      get_original_text_def)

subsection \<open>Upper-case letters that \<^verbatim>\<open>lower\<close> leaves\<close>

text \<open>
  C10 as stated fails: on the input \<^verbatim>\<open>The total should Compute\<close>, written with U+2102
  for the capital letter, the feature and the expected outcome are the word
  \<^verbatim>\<open>Compute\<close> with that letter, which is upper-case: \<^verbatim>\<open>lower\<close> has left it, \<^verbatim>\<open>\w\<close>
  matches it.
\<close>

theorem upper_case_letter_survives:
  "feature_w (parse_requirement_w (wide ''The total should '' @ [DoubleStruckC] @ wide ''ompute''))
     = [DoubleStruckC] @ wide ''ompute'' \<and>
   expected_w (parse_requirement_w (wide ''The total should '' @ [DoubleStruckC] @ wide ''ompute''))
     = [DoubleStruckC] @ wide ''ompute'' \<and>
   isupper_w DoubleStruckC"
  by code_simp

text \<open>
  C10, as amended. For every input the feature, the expected outcome and every
  condition of the parsed requirement are unchanged by \<^verbatim>\<open>lower\<close>: they contain no
  character that \<^verbatim>\<open>lower\<close> maps to another one, because each is a piece of the lower-cased
  text or a lower-case literal of the parser; an upper-case letter without a lower-case
  form can occur in them. For an input whose code points all lie in \<open>0..255\<close> they
  contain no upper-case character. (\<^verbatim>\<open>original_text\<close> is the input as it came.)
\<close>

theorem parsed_fields_unchanged_by_lower:
  "str_lower_w (feature_w (parse_requirement_w t)) = feature_w (parse_requirement_w t) \<and>
   str_lower_w (expected_w (parse_requirement_w t)) = expected_w (parse_requirement_w t) \<and>
   map str_lower_w (conditions_w (parse_requirement_w t)) = conditions_w (parse_requirement_w t) \<and>
   lower_case (get_feature (parse_requirement s)) \<and>
   lower_case (get_expected (parse_requirement s)) \<and>
   list_all lower_case (get_conditions (parse_requirement s))"
proof -
  have "map str_lower_w (conditions_w (parse_requirement_w t)) = conditions_w (parse_requirement_w t)"
    using wide_fields_lower_fixed [of t]
    by (simp add: list_all_iff map_idI lower_fixed_def)
  with wide_fields_lower_fixed [of t] narrow_fields_lower_case [of s] show ?thesis
    by (simp add: lower_fixed_def)
qed

subsection \<open>Non-empty fields\<close>

text \<open>
  The feature and the conditions of a parsed requirement are never empty; the expected
  outcome can be, as the theorem at the end of this section shows.
\<close>

lemma word_after_should_nonempty: "word_after_should s = Some w \<Longrightarrow> w \<noteq> []"
  by (induction s)
    (auto simp: word_after_should_here_def Let_def split: option.splits if_splits)

lemma extract_feature_nonempty: "extract_feature text \<noteq> []"
proof -
  have "k \<noteq> []" if "k \<in> set action_keywords" for k
    using that by (auto simp: action_keywords_def)
  then show ?thesis
    unfolding extract_feature_def re_search_should_word
    by (auto split: option.splits dest: find_in_set word_after_should_nonempty)
qed

lemma extract_conditions_nonempty: "extract_conditions text \<noteq> []"
  by (simp add: extract_conditions_def Let_def)

lemma parse_feature_conditions_nonempty:
  "get_feature (parse_requirement t) \<noteq> [] \<and> get_conditions (parse_requirement t) \<noteq> []"
  by (simp add: parse_requirement_def get_feature_def get_conditions_def Let_def
      extract_feature_nonempty extract_conditions_nonempty)

subsection \<open>The example sentence\<close>

text \<open>
  C3, as amended. For the input
  \<^verbatim>\<open>The system should allow login with username and password.\<close> the parser returns the
  feature \<^verbatim>\<open>login\<close>, the single condition \<^verbatim>\<open>username\<close> (the phrase after \<^verbatim>\<open>with\<close> ends
  at the next \<^verbatim>\<open> and\<close>, so \<^verbatim>\<open>password\<close> is not part of it) and the non-empty expected
  outcome \<^verbatim>\<open>allow login with username and password\<close>.
\<close>

theorem parse_example_sentence:
  "parse_requirement ''The system should allow login with username and password.'' =
     \<lparr>feature = Some ''login'',
      conditions = Some [''username''],
      expected = Some ''allow login with username and password'',
      original_text = Some ''The system should allow login with username and password.''\<rparr>"
  by code_simp

text \<open>
  C3 as stated fails: the conditions of the example sentence are the one phrase
  \<^verbatim>\<open>username\<close>, and \<^verbatim>\<open>password\<close> does not occur in it.
\<close>

theorem parse_example_conditions_lack_password:
  "conditions (parse_requirement ''The system should allow login with username and password.'')
     = Some [''username''] \<and> \<not> str_in ''password'' ''username''"
  by code_simp

subsection \<open>An empty expected outcome\<close>

text \<open>
  C1 says that for every input the parser returns a non-empty feature, a non-empty
  expected outcome and a non-empty sequence of conditions. The parser returns for every
  input, and the feature and the conditions are as claimed (the lemmas above). The
  expected outcome is not: at the input \<^verbatim>\<open>should  .\<close> + newline + \<^verbatim>\<open>x\<close> it is the empty
  string. With both blanks given to \<^verbatim>\<open>\s+\<close> the group cannot end (the dot does not match
  the newline), so the matcher backtracks, the group takes the second blank and ends
  before the full stop, and \<^verbatim>\<open>strip\<close> leaves nothing.
\<close>

theorem parse_expected_empty:
  "expected (parse_requirement (''should  .'' @ [CHR 0x0A] @ ''x'')) = Some []"
  by code_simp

section \<open>Properties of the generator\<close>

subsection \<open>The name of a test\<close>

lemma replace_twice: "replace_char (CHR ''-'') (CHR ''_'') (replace_char (CHR '' '') (CHR ''_'') s) = underscored s"
  by (simp add: replace_char_def underscored_def)

lemma str_split_pieces: "w \<in> set (str_split sep s) \<Longrightarrow> sep \<notin> set w \<and> set w \<subseteq> set s"
proof (induction s arbitrary: w)
  case Nil
  then show ?case by simp
next
  case (Cons c s)
  show ?case
  proof (cases "c = sep")
    case True
    with Cons.prems have "w = [] \<or> w \<in> set (str_split sep s)" by simp
    with Cons.IH show ?thesis by auto
  next
    case False
    show ?thesis
    proof (cases "str_split sep s")
      case Nil
      with False Cons.prems show ?thesis by simp
    next
      case (Cons v vs)
      with False Cons.prems have "w = c # v \<or> w \<in> set vs" by simp
      then show ?thesis
      proof
        assume w: "w = c # v"
        from Cons have "v \<in> set (str_split sep s)" by simp
        then have "sep \<notin> set v \<and> set v \<subseteq> set s" by (rule Cons.IH)
        with w False show ?thesis by auto
      next
        assume "w \<in> set vs"
        with Cons have "w \<in> set (str_split sep s)" by simp
        then have "sep \<notin> set w \<and> set w \<subseteq> set s" by (rule Cons.IH)
        then show ?thesis by auto
      qed
    qed
  qed
qed

lemma underscored_chars: "CHR '' '' \<notin> set (underscored s) \<and> CHR ''-'' \<notin> set (underscored s)"
  by (auto simp: underscored_def)

lemma kept_words_subset: "set (kept_words conds) \<subseteq>
  {w \<in> set (str_split (CHR ''_'') (underscored (hd conds))). w \<notin> {''and'', ''or'', ''with'', ''using''}}"
  by (auto simp: kept_words_def dest: in_set_takeD)

text \<open>
  C9 as stated fails: a run of two blanks becomes two separators, and a full stop, which
  is not alphanumeric, is kept, whereas replacing every non-alphanumeric run by a single
  separator would give \<^verbatim>\<open>test_a_b_c\<close>.
\<close>

theorem generate_test_name_keeps_runs:
  "generate_test_name ''a  b.c'' [] = ''test_a__b.c'' \<and>
   ''test_'' @ sanitize_runs False ''a  b.c'' = ''test_a_b_c''"
  by code_simp

text \<open>
  C9, as amended. The name is \<^verbatim>\<open>test_\<close>, then the feature with every blank and every
  hyphen replaced by an underscore (one for one, every other character kept), then, when
  the conditions are neither empty nor the sentinel list, an underscore and the kept
  words of the first condition joined by underscores: the first condition is treated as
  the feature and split at the underscores, the pieces \<^verbatim>\<open>and\<close>, \<^verbatim>\<open>or\<close>, \<^verbatim>\<open>with\<close>, \<^verbatim>\<open>using\<close>
  are discarded, and at most the first two remaining pieces are kept. Nothing is
  appended when no piece remains.
\<close>

theorem generate_test_name_shape:
  "generate_test_name feat conds =
     ''test_'' @ underscored feat @
       (if kept_words conds = [] then [] else ''_'' @ str_join ''_'' (kept_words conds)) \<and>
   length (underscored feat) = length feat \<and>
   CHR '' '' \<notin> set (underscored feat) \<and> CHR ''-'' \<notin> set (underscored feat) \<and>
   length (kept_words conds) \<le> 2 \<and>
   (\<forall>word \<in> set (kept_words conds).
      word \<notin> {''and'', ''or'', ''with'', ''using''} \<and>
      CHR ''_'' \<notin> set word \<and> CHR '' '' \<notin> set word \<and> CHR ''-'' \<notin> set word)"
proof -
  have name: "generate_test_name feat conds =
     ''test_'' @ underscored feat @
       (if kept_words conds = [] then [] else ''_'' @ str_join ''_'' (kept_words conds))"
    by (cases conds) (simp_all add: generate_test_name_def replace_twice kept_words_def Let_def)
  have words: "word \<notin> {''and'', ''or'', ''with'', ''using''} \<and>
      CHR ''_'' \<notin> set word \<and> CHR '' '' \<notin> set word \<and> CHR ''-'' \<notin> set word"
    if "word \<in> set (kept_words conds)" for word
  proof -
    from that kept_words_subset have
      w: "word \<in> set (str_split (CHR ''_'') (underscored (hd conds)))"
      and n: "word \<notin> {''and'', ''or'', ''with'', ''using''}"
      by blast+
    from str_split_pieces [OF w] underscored_chars [of "hd conds"] n show ?thesis
      by blast
  qed
  have "length (kept_words conds) \<le> 2"
    by (simp add: kept_words_def)
  with name words underscored_chars [of feat] show ?thesis
    by (simp add: underscored_def)
qed

theorem generate_test_name_shape_witness:
  "generate_test_name ''user-login page'' [''valid e-mail and password'']
     = ''test_user_login_page_valid_e'' \<and>
   kept_words [''valid e-mail and password''] = [''valid'', ''e''] \<and>
   generate_test_name ''login'' [''with and'', ''x''] = ''test_login''"
  using generate_test_name_shape [of "''user-login page''" "[''valid e-mail and password'']"]
    generate_test_name_shape [of "''login''" "[''with and'', ''x'']"]
  by (simp add: kept_words_def underscored_def)

subsection \<open>The requirement text in the documentation block\<close>









subsection \<open>One file per feature\<close>


















section \<open>Properties of the executor\<close>

text \<open>
  C6. The status message is the "All tests passed!" message for exit code 0, the
  "Some tests failed" message for 1, the "No tests collected" message for 5, and for
  every other exit code the "Unknown exit code:" message followed by the code.
\<close>

theorem get_status_message_cases:
  "get_status_message 0 = [CHR 0xF0, CHR 0x9F, CHR 0x8E, CHR 0x89] @ '' All tests passed!'' \<and>
   get_status_message 1 = [CHR 0xE2, CHR 0x9D, CHR 0x8C] @ '' Some tests failed'' \<and>
   get_status_message 5 =
     [CHR 0xE2, CHR 0x9A, CHR 0xA0, CHR 0xEF, CHR 0xB8, CHR 0x8F] @ '' No tests collected'' \<and>
   (exit_code \<notin> {0, 1, 5} \<longrightarrow>
      get_status_message exit_code =
        [CHR 0xE2, CHR 0x9D, CHR 0x93] @ '' Unknown exit code: '' @ str_int exit_code)"
  by (simp add: get_status_message_def)

theorem get_status_message_cases_witness:
  "(2::int) \<notin> {0, 1, 5} \<and>
   get_status_message 2 = [CHR 0xE2, CHR 0x9D, CHR 0x93] @ '' Unknown exit code: 2''"
  using get_status_message_cases [of 2] by (simp add: str_int_def str_nat.simps char_of_eq_iff)

text \<open>
  C7. When the test runner exceeds the timeout of 300 seconds, that is when the call of
  \<^verbatim>\<open>subprocess.run\<close> with the \<^verbatim>\<open>pytest\<close> command raises \<^verbatim>\<open>TimeoutExpired\<close>, each of the
  three report-running operations returns the failure record (an error text and
  \<^verbatim>\<open>success\<close> false); as a function into result records the operation has no other way
  out, so nothing is raised to the caller.
\<close>

theorem timeout_returns_failure:
  "(subprocess_run e (html_cmd e self fs) (Some 300) = Inl (TimeoutExpired m) \<longrightarrow>
      failure_record ''Test execution timed out'' (run_tests_with_html_report e self fs)) \<and>
   (subprocess_run e (allure_pytest_cmd e self fs) (Some 300) = Inl (TimeoutExpired m) \<longrightarrow>
      failure_record ''Test execution timed out'' (run_tests_with_allure_report e self fs)) \<and>
   (subprocess_run e (json_cmd e self fs) (Some 300) = Inl (TimeoutExpired m) \<longrightarrow>
      failure_record m (run_tests_with_json_report e self fs))"
  by (simp add: failure_record_def run_tests_with_html_report_def try_html_def
      run_tests_with_allure_report_def run_tests_with_json_report_def try_allure_def try_json_def)

theorem timeout_returns_failure_witness:
  "subprocess_run timing_out_env (html_cmd timing_out_env default_reporter None) (Some 300)
     = Inl (TimeoutExpired ''timed out after 300 seconds'') \<and>
   subprocess_run timing_out_env (allure_pytest_cmd timing_out_env default_reporter None) (Some 300)
     = Inl (TimeoutExpired ''timed out after 300 seconds'') \<and>
   subprocess_run timing_out_env (json_cmd timing_out_env default_reporter None) (Some 300)
     = Inl (TimeoutExpired ''timed out after 300 seconds'') \<and>
   map_of (run_tests_with_html_report timing_out_env default_reporter None) ''success''
     = Some (VBool False) \<and>
   map_of (run_tests_with_allure_report timing_out_env default_reporter None) ''success''
     = Some (VBool False) \<and>
   map_of (run_tests_with_json_report timing_out_env default_reporter None) ''success''
     = Some (VBool False)"
  using timeout_returns_failure
    [of timing_out_env default_reporter None "''timed out after 300 seconds''"]
  by (simp add: failure_record_def timing_out_env_def)

text \<open>
  C8 as stated fails: after a timeout the record returned by the HTML operation has no
  time stamp, no exit code and no status message.
\<close>

theorem timeout_record_lacks_fields:
  "map_of (run_tests_with_html_report timing_out_env default_reporter None) ''timestamp'' = None \<and>
   map_of (run_tests_with_html_report timing_out_env default_reporter None) ''exit_code'' = None \<and>
   map_of (run_tests_with_html_report timing_out_env default_reporter None) ''message'' = None"
  by (simp add: run_tests_with_html_report_def try_html_def timing_out_env_def)

text \<open>
  C8, as amended. When the body of the \<^verbatim>\<open>try\<close> block returns, the record of each
  operation carries the time stamp, the exit code, the success flag (true exactly for
  exit code 0), the standard output and error texts, the tag of the report type and the
  status message of the exit code. When the body raises (the timeout, or any other
  exception), the record carries an error text and the success flag false, and nothing
  else.
\<close>

theorem result_record_shapes:
  "(try_html e self fs = Inr p \<longrightarrow>
      full_record e p ''HTML'' (run_tests_with_html_report e self fs)) \<and>
   (try_html e self fs = Inl x \<longrightarrow>
      failure_record (case x of TimeoutExpired m \<Rightarrow> ''Test execution timed out'' | OtherException m \<Rightarrow> m)
        (run_tests_with_html_report e self fs)) \<and>
   (try_allure e self fs = Inr (p, q) \<longrightarrow>
      full_record e p ''Allure'' (run_tests_with_allure_report e self fs)) \<and>
   (try_allure e self fs = Inl x \<longrightarrow>
      failure_record (case x of TimeoutExpired m \<Rightarrow> ''Test execution timed out'' | OtherException m \<Rightarrow> m)
        (run_tests_with_allure_report e self fs)) \<and>
   (try_json e self fs = Inr (p, d) \<longrightarrow>
      full_record e p ''JSON'' (run_tests_with_json_report e self fs)) \<and>
   (try_json e self fs = Inl x \<longrightarrow>
      failure_record (exn_str x) (run_tests_with_json_report e self fs))"
  by (simp add: full_record_def failure_record_def run_tests_with_html_report_def
      run_tests_with_allure_report_def run_tests_with_json_report_def split: exn.split)

theorem result_record_shapes_witness:
  "try_html failing_tests_env default_reporter None
     = Inr \<lparr>returncode = 1, stdout = ''1 failed'', stderr = []\<rparr> \<and>
   try_allure failing_tests_env default_reporter None
     = Inr (\<lparr>returncode = 1, stdout = ''1 failed'', stderr = []\<rparr>,
            \<lparr>returncode = 1, stdout = ''1 failed'', stderr = []\<rparr>) \<and>
   try_json failing_tests_env default_reporter None
     = Inr (\<lparr>returncode = 1, stdout = ''1 failed'', stderr = []\<rparr>, VData ()) \<and>
   map_of (run_tests_with_html_report failing_tests_env default_reporter None) ''exit_code''
     = Some (VInt 1) \<and>
   map_of (run_tests_with_allure_report failing_tests_env default_reporter None) ''report_type''
     = Some (VStr ''Allure'') \<and>
   map_of (run_tests_with_json_report failing_tests_env default_reporter None) ''success''
     = Some (VBool False) \<and>
   try_html timing_out_env default_reporter None
     = Inl (TimeoutExpired ''timed out after 300 seconds'') \<and>
   try_allure timing_out_env default_reporter None
     = Inl (TimeoutExpired ''timed out after 300 seconds'') \<and>
   try_json timing_out_env default_reporter None
     = Inl (TimeoutExpired ''timed out after 300 seconds'') \<and>
   run_tests_with_html_report timing_out_env default_reporter None
     = [(''error'', VStr ''Test execution timed out''), (''success'', VBool False)] \<and>
   run_tests_with_allure_report timing_out_env default_reporter None
     = [(''error'', VStr ''Test execution timed out''), (''success'', VBool False)] \<and>
   run_tests_with_json_report timing_out_env default_reporter None
     = [(''error'', VStr ''timed out after 300 seconds''), (''success'', VBool False)]"
  using result_record_shapes
      [of failing_tests_env default_reporter None
        "\<lparr>returncode = 1, stdout = ''1 failed'', stderr = []\<rparr>" "TimeoutExpired []"
        "\<lparr>returncode = 1, stdout = ''1 failed'', stderr = []\<rparr>" "VData ()"]
    result_record_shapes
      [of timing_out_env default_reporter None
        "\<lparr>returncode = 1, stdout = ''1 failed'', stderr = []\<rparr>"
        "TimeoutExpired ''timed out after 300 seconds''"
        "\<lparr>returncode = 1, stdout = ''1 failed'', stderr = []\<rparr>" "VData ()"]
  by (simp add: full_record_def failure_record_def try_html_def try_allure_def try_json_def
      failing_tests_env_def timing_out_env_def)

end
